theory Spec2Isabelle
  imports Main "HOL-Library.Char_ord" "HOL-Library.List_Lexorder" "HOL-Library.Sublist"
begin

section \<open>Python strings\<close>

text \<open>
  The validator works on Python \<open>str\<close> values. A character is modelled as a \<open>char\<close>
  (a code point below 256) and a \<open>str\<close> as a \<open>string\<close>. On these code points the
  regular-expression class \<^verbatim>\<open>\d\<close> is exactly \<open>0\<close>..\<open>9\<close>, and \<open>str.isspace\<close> holds of the
  twelve code points listed in \<open>is_space\<close>. Comparison of two \<open>str\<close> values (\<open><\<close>, \<open>>=\<close>)
  is the lexicographic order on the code points, which is the order of
  \<open>List_Lexorder\<close> over \<open>Char_ord\<close>.
\<close>

definition in_range :: "char \<Rightarrow> char \<Rightarrow> char \<Rightarrow> bool" where
  "in_range lo hi c = ((of_char lo :: nat) \<le> of_char c \<and> (of_char c :: nat) \<le> of_char hi)"

definition is_digit :: "char \<Rightarrow> bool" where
  "is_digit c = in_range CHR ''0'' CHR ''9'' c"

definition is_nonzero :: "char \<Rightarrow> bool" where
  "is_nonzero c = in_range CHR ''1'' CHR ''9'' c"

definition is_alpha :: "char \<Rightarrow> bool" where
  "is_alpha c = (in_range CHR ''a'' CHR ''z'' c \<or> in_range CHR ''A'' CHR ''Z'' c)"

definition is_space :: "char \<Rightarrow> bool" where
  "is_space c = ((of_char c :: nat) \<in> {9, 10, 11, 12, 13, 28, 29, 30, 31, 32, 133, 160})"

text \<open>\<open>s.strip()\<close>: leading and trailing whitespace removed.\<close>

definition py_strip :: "string \<Rightarrow> string" where
  "py_strip s = rev (dropWhile is_space (rev (dropWhile is_space s)))"

text \<open>
  \<open>s.split(sep)\<close> for a non-empty separator: the pieces between the occurrences of
  \<open>sep\<close>, found from left to right without overlap. \<open>acc\<close> is the piece being read.
  (The program only splits on the constants \<^verbatim>\<open>"\n"\<close> and \<^verbatim>\<open>"\n- "\<close>.)
\<close>

fun split_from :: "string \<Rightarrow> string \<Rightarrow> string \<Rightarrow> string list" where
  "split_from sep acc [] = [acc]"
| "split_from sep acc (x # xs) =
     (if prefix sep (x # xs) then acc # split_from sep [] (drop (length sep - 1) xs)
      else split_from sep (acc @ [x]) xs)"

definition py_split :: "string \<Rightarrow> string \<Rightarrow> string list" where
  "py_split sep s = split_from sep [] s"

text \<open>\<open>sub in s\<close> on strings: \<open>sub\<close> occurs in \<open>s\<close>.\<close>

fun contains :: "string \<Rightarrow> string \<Rightarrow> bool" where
  "contains [] sub = (sub = [])"
| "contains (x # xs) sub = (prefix sub (x # xs) \<or> contains xs sub)"

text \<open>\<open>sep.join(xs)\<close>.\<close>

fun py_join :: "string \<Rightarrow> string list \<Rightarrow> string" where
  "py_join sep [] = []"
| "py_join sep [x] = x"
| "py_join sep (x # y # ys) = x @ sep @ py_join sep (y # ys)"

text \<open>\<open>int(s)\<close> on a string of decimal digits, surrounding whitespace ignored.\<close>

definition digit_val :: "char \<Rightarrow> nat" where
  "digit_val c = of_char c - 48"

definition py_int :: "string \<Rightarrow> nat" where
  "py_int s = foldl (\<lambda>n c. 10 * n + digit_val c) 0 (py_strip s)"

section \<open>Regular expressions of the \<open>re\<close> module\<close>

text \<open>
  The patterns the program uses are built from literals, character classes, sequence,
  ordered alternative, greedy and lazy repetition, capture groups, a lookahead and the
  anchors \<^verbatim>\<open>\Z\<close> and \<^verbatim>\<open>$\<close>. \<open>re\<close> is a backtracking matcher: the alternatives of a
  pattern are tried in a fixed order and the first one that lets the whole pattern match
  wins. \<open>ms r st\<close> lists, in that order, every way \<open>r\<close> can match at the start of the
  text \<open>snd st\<close>: each result holds the capture groups set so far and the text that is
  left. The head of the list is the match \<open>re\<close> reports.
\<close>

datatype rx =
    Lit char
  | Cls "char \<Rightarrow> bool"
  | Eps
  | Seq rx rx
  | Alt rx rx
  | Star rx
  | LazyStar rx
  | Grp nat rx
  | Ahead rx
  | EndZ
  | Dollar

type_synonym caps = "nat \<Rightarrow> string option"
type_synonym mstate = "caps \<times> string"

function ms :: "rx \<Rightarrow> mstate \<Rightarrow> mstate list" where
  "ms (Lit c) st = (case snd st of [] \<Rightarrow> [] | x # xs \<Rightarrow> if x = c then [(fst st, xs)] else [])"
| "ms (Cls P) st = (case snd st of [] \<Rightarrow> [] | x # xs \<Rightarrow> if P x then [(fst st, xs)] else [])"
| "ms Eps st = [st]"
| "ms (Seq a b) st = concat (map (ms b) (ms a st))"
| "ms (Alt a b) st = ms a st @ ms b st"
| "ms (Star a) st =
     concat (map (ms (Star a)) (filter (\<lambda>p. length (snd p) < length (snd st)) (ms a st))) @ [st]"
| "ms (LazyStar a) st =
     st # concat (map (ms (LazyStar a)) (filter (\<lambda>p. length (snd p) < length (snd st)) (ms a st)))"
| "ms (Grp n a) st =
     map (\<lambda>p. ((fst p)(n \<mapsto> take (length (snd st) - length (snd p)) (snd st)), snd p)) (ms a st)"
| "ms (Ahead a) st = (case ms a st of [] \<Rightarrow> [] | p # _ \<Rightarrow> [(fst p, snd st)])"
| "ms EndZ st = (if snd st = [] then [st] else [])"
| "ms Dollar st = (if snd st = [] \<or> snd st = ''\<newline>'' then [st] else [])"
  by pat_completeness auto
termination
  by (relation "measures [\<lambda>(r, st). size r, \<lambda>(r, st). length (snd st)]") auto

text \<open>Derived forms: \<^verbatim>\<open>r?\<close>, \<^verbatim>\<open>r+\<close>, a sequence of patterns, a literal word.\<close>

definition Opt :: "rx \<Rightarrow> rx" where
  "Opt r = Alt r Eps"

definition Plus :: "rx \<Rightarrow> rx" where
  "Plus r = Seq r (Star r)"

definition seqs :: "rx list \<Rightarrow> rx" where
  "seqs rs = foldr Seq rs Eps"

definition lits :: "string \<Rightarrow> rx" where
  "lits w = seqs (map Lit w)"

text \<open>\<open>re.match(r, s)\<close>: the first way \<open>r\<close> matches at the start of \<open>s\<close>, if any.\<close>

definition re_match :: "rx \<Rightarrow> string \<Rightarrow> mstate option" where
  "re_match r s = (case ms r (Map.empty, s) of [] \<Rightarrow> None | p # _ \<Rightarrow> Some p)"

text \<open>\<open>re.search(r, s)\<close>: the match at the leftmost position that has one.\<close>

fun re_search :: "rx \<Rightarrow> string \<Rightarrow> mstate option" where
  "re_search r [] = re_match r []"
| "re_search r (x # xs) =
     (case re_match r (x # xs) of Some p \<Rightarrow> Some p | None \<Rightarrow> re_search r xs)"

text \<open>
  \<open>re.findall(r, s)\<close>: the matches from left to right, each search starting where the
  previous match ended. (After a match of the empty string the search moves on by one
  character; the program's patterns all start with a literal, so this never happens.)
\<close>

function findall :: "rx \<Rightarrow> string \<Rightarrow> caps list" where
  "findall r s =
     (case re_match r s of
        None \<Rightarrow> (case s of [] \<Rightarrow> [] | _ # xs \<Rightarrow> findall r xs)
      | Some p \<Rightarrow>
          fst p # (if length (snd p) < length s then findall r (snd p)
                   else (case s of [] \<Rightarrow> [] | _ # xs \<Rightarrow> findall r xs)))"
  by pat_completeness auto
termination
  by (relation "measure (\<lambda>(r, s). length s)") auto

text \<open>The text of group \<open>n\<close>; \<open>findall\<close> gives \<^verbatim>\<open>''\<close> for a group that took no part.\<close>

definition grp :: "caps \<Rightarrow> nat \<Rightarrow> string" where
  "grp g n = (case g n of None \<Rightarrow> [] | Some w \<Rightarrow> w)"

text \<open>\<open>findall\<close> with a pattern of two groups returns the pairs of their texts.\<close>

definition findall2 :: "rx \<Rightarrow> string \<Rightarrow> (string \<times> string) list" where
  "findall2 r s = map (\<lambda>g. (grp g 1, grp g 2)) (findall r s)"

section \<open>The patterns of the program\<close>

text \<open>
  \<open>KACLValidator.semver_regex\<close>:
  \<^verbatim>\<open>(0|[1-9]\d*)\.(0|[1-9]\d*)\.(0|[1-9]\d*)\<close>
  \<^verbatim>\<open>(?:-((?:0|[1-9]\d*|\d*[a-zA-Z-][0-9a-zA-Z-]*)(?:\.(?:0|[1-9]\d*|\d*[a-zA-Z-][0-9a-zA-Z-]*))*))?\<close>
  \<^verbatim>\<open>(?:\+([0-9a-zA-Z-]+(?:\.[0-9a-zA-Z-]+)*))?\<close>
\<close>

definition is_alpha_hyphen :: "char \<Rightarrow> bool" where
  "is_alpha_hyphen c = (is_alpha c \<or> c = CHR ''-'')"

definition is_alnum_hyphen :: "char \<Rightarrow> bool" where
  "is_alnum_hyphen c = (is_digit c \<or> is_alpha c \<or> c = CHR ''-'')"

definition num_rx :: rx where
  "num_rx = Alt (Lit CHR ''0'') (Seq (Cls is_nonzero) (Star (Cls is_digit)))"

definition pre_id_rx :: rx where
  "pre_id_rx =
     Alt (Lit CHR ''0'')
       (Alt (Seq (Cls is_nonzero) (Star (Cls is_digit)))
            (Seq (Star (Cls is_digit)) (Seq (Cls is_alpha_hyphen) (Star (Cls is_alnum_hyphen)))))"

definition core_rx :: rx where
  "core_rx = Seq (Grp 1 num_rx) (Seq (Lit CHR ''.'') (Seq (Grp 2 num_rx) (Seq (Lit CHR ''.'') (Grp 3 num_rx))))"

definition pre_rx :: rx where
  "pre_rx = Opt (Seq (Lit CHR ''-'') (Grp 4 (Seq pre_id_rx (Star (Seq (Lit CHR ''.'') pre_id_rx)))))"

definition build_rx :: rx where
  "build_rx =
     Opt (Seq (Lit CHR ''+'')
       (Grp 5 (Seq (Plus (Cls is_alnum_hyphen)) (Star (Seq (Lit CHR ''.'') (Plus (Cls is_alnum_hyphen)))))))"

definition semver_regex :: rx where
  "semver_regex = Seq core_rx (Seq pre_rx build_rx)"

text \<open>\<^verbatim>\<open>\d{4}-\d{2}-\d{2}\<close>, the pattern of \<open>verify_date\<close> and the date part of the headings.\<close>

definition date_rx :: rx where
  "date_rx =
     seqs [Cls is_digit, Cls is_digit, Cls is_digit, Cls is_digit, Lit CHR ''-'',
           Cls is_digit, Cls is_digit, Lit CHR ''-'', Cls is_digit, Cls is_digit]"

text \<open>\<^verbatim>\<open>\d+\.\d+\.\d+\<close>, the version part of the headings the scanner reads.\<close>

definition mmp_rx :: rx where
  "mmp_rx =
     seqs [Plus (Cls is_digit), Lit CHR ''.'', Plus (Cls is_digit), Lit CHR ''.'', Plus (Cls is_digit)]"

text \<open>\<^verbatim>\<open>## \[(.*?)\] - (\d{4}-\d{2}-\d{2})\<close> of \<open>parse_changelog\<close>; \<^verbatim>\<open>.\<close> is any character but a newline.\<close>

definition not_newline :: "char \<Rightarrow> bool" where
  "not_newline c = (c \<noteq> CHR 0x0A)"

definition release_rx :: rx where
  "release_rx =
     seqs [lits ''## ['', Grp 1 (LazyStar (Cls not_newline)), lits ''] - '', Grp 2 date_rx]"

text \<open>
  \<^verbatim>\<open>### (.*?)\n(.*?)(?=\n###|\Z)\<close> of \<open>parse_changelog\<close>, compiled with \<open>re.DOTALL\<close>: here
  \<^verbatim>\<open>.\<close> is any character.
\<close>

definition any_char :: "char \<Rightarrow> bool" where
  "any_char c = True"

definition section_rx :: rx where
  "section_rx =
     seqs [lits ''### '', Grp 1 (LazyStar (Cls any_char)), Lit CHR 0x0A,
           Grp 2 (LazyStar (Cls any_char)), Ahead (Alt (lits ''\<newline>###'') EndZ)]"

text \<open>\<^verbatim>\<open># Changelog\<close> and \<^verbatim>\<open>## \[Unreleased\]\<close> of \<open>verify_changelog_format\<close>.\<close>

definition changelog_rx :: rx where
  "changelog_rx = lits ''# Changelog''"

definition unreleased_rx :: rx where
  "unreleased_rx = lits ''## [Unreleased]''"

text \<open>\<^verbatim>\<open>## \[(\d+\.\d+\.\d+)\] - (\d{4}-\d{2}-\d{2})$\<close>, matched against each stripped heading line.\<close>

definition heading_rx :: rx where
  "heading_rx = seqs [lits ''## ['', Grp 1 mmp_rx, lits ''] - '', Grp 2 date_rx, Dollar]"

text \<open>\<^verbatim>\<open>## \[(\d+\.\d+\.\d+)\] - (\d{4}-\d{2}-\d{2})\<close>, searched in the whole text for the ordering check.\<close>

definition order_rx :: rx where
  "order_rx = seqs [lits ''## ['', Grp 1 mmp_rx, lits ''] - '', Grp 2 date_rx]"

section \<open>\<open>datetime.datetime.strptime(s, "%Y-%m-%d")\<close>\<close>

text \<open>
  \<open>strptime\<close> turns the format into the pattern
  \<^verbatim>\<open>(?P<Y>\d\d\d\d)-(?P<m>1[0-2]|0[1-9]|[1-9])-(?P<d>3[0-1]|[1-2]\d|0[1-9]|[1-9]| [1-9])\<close>,
  matches it at the start of the string and raises \<open>ValueError\<close> when it does not match
  or when text is left over; the \<open>datetime\<close> constructor then raises \<open>ValueError\<close> for a
  year below 1 and for a day the month does not have. The time of day of the result is
  midnight, so two results compare as their (year, month, day) triples do.
\<close>

datatype error = ValueError | KeyError

type_synonym date = "nat \<times> nat \<times> nat"

definition strptime_rx :: rx where
  "strptime_rx =
     seqs [Grp 1 (seqs [Cls is_digit, Cls is_digit, Cls is_digit, Cls is_digit]),
           Lit CHR ''-'',
           Grp 2 (Alt (Seq (Lit CHR ''1'') (Cls (in_range CHR ''0'' CHR ''2'')))
                 (Alt (Seq (Lit CHR ''0'') (Cls is_nonzero)) (Cls is_nonzero))),
           Lit CHR ''-'',
           Grp 3 (Alt (Seq (Lit CHR ''3'') (Cls (in_range CHR ''0'' CHR ''1'')))
                 (Alt (Seq (Cls (in_range CHR ''1'' CHR ''2'')) (Cls is_digit))
                 (Alt (Seq (Lit CHR ''0'') (Cls is_nonzero))
                 (Alt (Cls is_nonzero) (Seq (Lit CHR '' '') (Cls is_nonzero))))))]"

definition is_leap :: "nat \<Rightarrow> bool" where
  "is_leap y = (y mod 4 = 0 \<and> (y mod 100 \<noteq> 0 \<or> y mod 400 = 0))"

definition days_in_month :: "nat \<Rightarrow> nat \<Rightarrow> nat" where
  "days_in_month y m =
     (if m = 2 then (if is_leap y then 29 else 28)
      else if m \<in> {4, 6, 9, 11} then 30 else 31)"

definition strptime :: "string \<Rightarrow> error + date" where
  "strptime s =
     (case re_match strptime_rx s of
        None \<Rightarrow> Inl ValueError
      | Some p \<Rightarrow>
          if snd p \<noteq> [] then Inl ValueError
          else let y = py_int (grp (fst p) 1); m = py_int (grp (fst p) 2);
                   d = py_int (grp (fst p) 3)
               in if y < 1 \<or> days_in_month y m < d then Inl ValueError else Inr (y, m, d))"

text \<open>\<open>a < b\<close> on two \<open>datetime\<close> values at midnight.\<close>

fun date_less :: "date \<Rightarrow> date \<Rightarrow> bool" where
  "date_less (y1, m1, d1) (y2, m2, d2) =
     (y1 < y2 \<or> (y1 = y2 \<and> (m1 < m2 \<or> (m1 = m2 \<and> d1 < d2))))"

section \<open>The data model\<close>

text \<open>
  A section is a \<open>dict\<close> with the keys \<^verbatim>\<open>'section'\<close> (the label, a \<open>str\<close>) and \<^verbatim>\<open>'changes'\<close>
  (a list of \<open>str\<close>); it is typed \<open>Dict[str, Any]\<close>, so a key may be missing and a value may
  be of either kind. A release is the \<open>dict\<close> with the keys \<^verbatim>\<open>'version'\<close>, \<^verbatim>\<open>'date'\<close> and
  \<^verbatim>\<open>'sections'\<close> that \<open>parse_changelog\<close> builds, from which \<open>main\<close> makes the \<open>Version\<close> object
  with the same three fields.
\<close>

datatype pyval = PStr string | PList "string list"

type_synonym pydict = "string \<rightharpoonup> pyval"

record Version =
  version :: string
  date :: string
  sections :: "pydict list"

text \<open>What the functions print, one value for each \<open>print\<close> call of the source.\<close>

datatype diag =
    NoChangelogHeader
  | UnreleasedMissing
  | FormatNotAllowed string
  | VersionsUndefined
  | VersionsNotDescending string string
  | DatesNotChronological date date
  | SectionIssue pyval
  | NotAllowedSection string

text \<open>\<open>Version.has_link_reference\<close> returns \<open>True\<close>.\<close>

definition has_link_reference :: "Version \<Rightarrow> bool" where
  "has_link_reference v = True"

section \<open>\<open>KACLValidator\<close>\<close>

definition verify_semver :: "string \<Rightarrow> bool" where
  "verify_semver v = (if re_match semver_regex v = None then False else True)"

definition verify_date :: "string \<Rightarrow> bool" where
  "verify_date d =
     (if d = [] \<or> length d < 1 then False
      else if re_match date_rx d = None then False
      else True)"

text \<open>
  \<open>verify_sections\<close> returns at the first section whose label is not allowed, after
  printing that label; \<open>section['section']\<close> raises \<open>KeyError\<close> when the key is missing.
\<close>

fun verify_sections :: "pydict list \<Rightarrow> string list \<Rightarrow> (error + bool) \<times> diag list" where
  "verify_sections [] allowed_sections = (Inr True, [])"
| "verify_sections (s # ss) allowed_sections =
     (case s ''section'' of
        None \<Rightarrow> (Inl KeyError, [])
      | Some l \<Rightarrow>
          if l \<notin> set (map PStr allowed_sections) then (Inr False, [SectionIssue l])
          else verify_sections ss allowed_sections)"

definition verify_links :: "bool \<Rightarrow> bool" where
  "verify_links has_link = True"

definition semver_message :: "string \<Rightarrow> string" where
  "semver_message v = ''Version '' @ v @ '' is not a valid semantic version.''"

definition date_message :: "string \<Rightarrow> string" where
  "date_message v = ''Version '' @ v @ '' has an invalid release date format.''"

definition section_message :: "string \<Rightarrow> string list \<Rightarrow> string" where
  "section_message v allowed_sections =
     ''Version '' @ v @ '' contains an invalid section. '' @
     ''Valid sections are: '' @ py_join '', '' allowed_sections"

definition link_message :: "string \<Rightarrow> string" where
  "link_message v = ''Version '' @ v @ '' is linked, but no link reference found in the changelog.''"

definition verify_version :: "Version \<Rightarrow> string list \<Rightarrow> (error + string list) \<times> diag list" where
  "verify_version v allowed_sections =
     (let errors = [];
          errors = (if \<not> verify_semver (version v) then errors @ [semver_message (version v)]
                    else errors);
          errors = (if \<not> verify_date (date v) then errors @ [date_message (version v)]
                    else errors)
      in case verify_sections (sections v) allowed_sections of
           (Inl e, out) \<Rightarrow> (Inl e, out)
         | (Inr ok, out) \<Rightarrow>
             (let errors = (if \<not> ok then errors @ [section_message (version v) allowed_sections]
                            else errors);
                  errors = (if \<not> verify_links (has_link_reference v)
                            then errors @ [link_message (version v)] else errors)
              in (Inr errors, out)))"

section \<open>\<open>parse_changelog\<close>\<close>

text \<open>
  The inner loop over the sections found: \<open>Inl title\<close> when a title is not allowed (the
  function then prints it and returns the empty list), else the parsed sections.
\<close>

fun parse_sections :: "(string \<times> string) list \<Rightarrow> string list \<Rightarrow> pydict list \<Rightarrow> string + pydict list" where
  "parse_sections [] allowed_sections parsed = Inr parsed"
| "parse_sections ((title, changes) # rest) allowed_sections parsed =
     (if py_strip title \<in> set allowed_sections
      then parse_sections rest allowed_sections
             (parsed @ [[''section'' \<mapsto> PStr (py_strip title),
                         ''changes'' \<mapsto> PList (py_split ''\<newline>- '' (py_strip changes))]])
      else Inl title)"

text \<open>The outer loop over the release headings found; the sections are searched in the whole text each time.\<close>

fun parse_versions :: "(string \<times> string) list \<Rightarrow> string \<Rightarrow> string list \<Rightarrow> Version list \<Rightarrow> Version list \<times> diag list" where
  "parse_versions [] content allowed_sections changelog = (changelog, [])"
| "parse_versions ((v, d) # rest) content allowed_sections changelog =
     (case parse_sections (findall2 section_rx content) allowed_sections [] of
        Inl title \<Rightarrow> ([], [NotAllowedSection title])
      | Inr parsed \<Rightarrow>
          parse_versions rest content allowed_sections
            (changelog @ [\<lparr>version = v, date = d, sections = parsed\<rparr>]))"

definition parse_changelog :: "string \<Rightarrow> string list \<Rightarrow> Version list \<times> diag list" where
  "parse_changelog content allowed_sections =
     parse_versions (findall2 release_rx content) content allowed_sections []"

section \<open>\<open>verify_changelog_format\<close>\<close>

text \<open>The check of one line: only a line that opens a release heading is matched.\<close>

definition line_ok :: "string \<Rightarrow> bool" where
  "line_ok line =
     (if prefix ''##'' line \<and> \<not> contains line ''[Unreleased]'' \<and> \<not> contains line ''###''
      then re_match heading_rx (py_strip line) \<noteq> None
      else True)"

text \<open>The loop over the lines: the first line that fails, if any.\<close>

fun check_lines :: "string list \<Rightarrow> string option" where
  "check_lines [] = None"
| "check_lines (l # ls) = (if line_ok l then check_lines ls else Some l)"

text \<open>
  The loop over \<open>range(1, len(matches))\<close>: \<open>prev\<close> is \<open>matches[i - 1]\<close> and the head of the
  list is \<open>matches[i]\<close>. Both dates are parsed before the versions are compared.
\<close>

fun check_order :: "string \<times> string \<Rightarrow> (string \<times> string) list \<Rightarrow> (error + bool) \<times> diag list" where
  "check_order prev [] = (Inr True, [])"
| "check_order prev (cur # rest) =
     (case strptime (snd cur) of
        Inl e \<Rightarrow> (Inl e, [])
      | Inr date_current \<Rightarrow>
          (case strptime (snd prev) of
             Inl e \<Rightarrow> (Inl e, [])
           | Inr date_previous \<Rightarrow>
               if fst cur \<ge> fst prev
               then (Inr False, [VersionsNotDescending (fst cur) (fst prev)])
               else if date_less date_previous date_current
               then (Inr False, [DatesNotChronological date_current date_previous])
               else check_order cur rest))"

definition verify_changelog_format :: "string \<Rightarrow> (error + bool) \<times> diag list" where
  "verify_changelog_format content =
     (if re_search changelog_rx content = None then (Inr False, [NoChangelogHeader])
      else if re_search unreleased_rx content = None then (Inr False, [UnreleasedMissing])
      else case check_lines (py_split ''\<newline>'' content) of
             Some line \<Rightarrow> (Inr False, [FormatNotAllowed line])
           | None \<Rightarrow>
               (let matches = findall2 order_rx content
                in if length matches < 2 then (Inr False, [VersionsUndefined])
                   else check_order (hd matches) (tl matches)))"

text \<open>\<open>allowed_sections\<close> as \<open>main\<close> sets it.\<close>

definition allowed_sections_main :: "string list" where
  "allowed_sections_main = [''Added'', ''Changed'', ''Fixed'', ''Deprecated'', ''Removed'']"

section \<open>The language of a pattern\<close>

text \<open>
  The words a pattern accepts, for the patterns without lookahead and anchors
  (\<open>plain\<close>): the usual language of a regular expression. \<open>groups r\<close> are the numbers of
  the capture groups of \<open>r\<close>. The matcher is proved sound and complete for this
  language further down.
\<close>

inductive_set star :: "string set \<Rightarrow> string set" for L :: "string set" where
  star_nil: "[] \<in> star L"
| star_app: "u \<in> L \<Longrightarrow> v \<in> star L \<Longrightarrow> u @ v \<in> star L"

fun lang :: "rx \<Rightarrow> string set" where
  "lang (Lit c) = {[c]}"
| "lang (Cls P) = {[c] | c. P c}"
| "lang Eps = {[]}"
| "lang (Seq a b) = {u @ v | u v. u \<in> lang a \<and> v \<in> lang b}"
| "lang (Alt a b) = lang a \<union> lang b"
| "lang (Star a) = star (lang a)"
| "lang (LazyStar a) = star (lang a)"
| "lang (Grp n a) = lang a"
| "lang (Ahead a) = {}"
| "lang EndZ = {}"
| "lang Dollar = {}"

fun plain :: "rx \<Rightarrow> bool" where
  "plain (Seq a b) = (plain a \<and> plain b)"
| "plain (Alt a b) = (plain a \<and> plain b)"
| "plain (Star a) = plain a"
| "plain (LazyStar a) = plain a"
| "plain (Grp n a) = plain a"
| "plain (Ahead a) = False"
| "plain EndZ = False"
| "plain Dollar = False"
| "plain r = True"

fun groups :: "rx \<Rightarrow> nat set" where
  "groups (Seq a b) = groups a \<union> groups b"
| "groups (Alt a b) = groups a \<union> groups b"
| "groups (Star a) = groups a"
| "groups (LazyStar a) = groups a"
| "groups (Grp n a) = insert n (groups a)"
| "groups (Ahead a) = groups a"
| "groups r = {}"

section \<open>Notions of the specification\<close>

text \<open>
  The digit shape \<^verbatim>\<open>\d{4}-\d{2}-\d{2}\<close> of a date, as the specification words it: ten
  characters, digits but for the hyphens at the fifth and eighth place.
\<close>

definition date_shape :: "string \<Rightarrow> bool" where
  "date_shape s =
     (length s = 10 \<and> list_all is_digit (take 4 s) \<and> s ! 4 = CHR ''-'' \<and>
      list_all is_digit (take 2 (drop 5 s)) \<and> s ! 7 = CHR ''-'' \<and>
      list_all is_digit (drop 8 s))"

text \<open>
  The semantic-version grammar, as the specification words it: three dot-separated
  non-negative integers with no leading zeros except the value 0 itself, optional
  hyphen-delimited pre-release identifiers, optional plus-delimited build metadata.
\<close>

definition numeric_id :: "string \<Rightarrow> bool" where
  "numeric_id s = (s = ''0'' \<or> (s \<noteq> [] \<and> list_all is_digit s \<and> hd s \<noteq> CHR ''0''))"

definition pre_ident :: "string \<Rightarrow> bool" where
  "pre_ident s = (numeric_id s \<or> (s \<noteq> [] \<and> list_all is_alnum_hyphen s \<and> \<not> list_all is_digit s))"

definition build_ident :: "string \<Rightarrow> bool" where
  "build_ident s = (s \<noteq> [] \<and> list_all is_alnum_hyphen s)"

definition dotted :: "(string \<Rightarrow> bool) \<Rightarrow> string \<Rightarrow> bool" where
  "dotted P s = (\<exists>ids. ids \<noteq> [] \<and> list_all P ids \<and> s = py_join ''.'' ids)"

definition semver_grammar :: "string \<Rightarrow> bool" where
  "semver_grammar s =
     (\<exists>major minor patch pre build.
        numeric_id major \<and> numeric_id minor \<and> numeric_id patch \<and>
        (pre = [] \<or> (\<exists>x. pre = CHR ''-'' # x \<and> dotted pre_ident x)) \<and>
        (build = [] \<or> (\<exists>x. build = CHR ''+'' # x \<and> dotted build_ident x)) \<and>
        s = major @ ''.'' @ minor @ ''.'' @ patch @ pre @ build)"

text \<open>
  The releases below \<open>prev\<close> are in order: each version is below the one above it, and
  no date is later than the one above it. (A date that is no calendar date is not in
  order with any other.)
\<close>

fun in_order :: "string \<times> string \<Rightarrow> (string \<times> string) list \<Rightarrow> bool" where
  "in_order prev [] = True"
| "in_order prev (cur # rest) =
     (fst cur < fst prev \<and>
      (case (strptime (snd prev), strptime (snd cur)) of
         (Inr date_previous, Inr date_current) \<Rightarrow> \<not> date_less date_previous date_current
       | _ \<Rightarrow> False) \<and>
      in_order cur rest)"

text \<open>A section that carries a label, and one whose label is allowed.\<close>

definition has_label :: "pydict \<Rightarrow> bool" where
  "has_label s = (s ''section'' \<noteq> None)"

definition label_allowed :: "string list \<Rightarrow> pydict \<Rightarrow> bool" where
  "label_allowed allowed_sections s =
     (case s ''section'' of None \<Rightarrow> False | Some l \<Rightarrow> l \<in> set (map PStr allowed_sections))"

section \<open>Texts and records the theorems are evaluated on\<close>

text \<open>
  \<open>doc_roundtrip\<close> is the document of the specification's round-trip property: title,
  Unreleased marker, release 2.0.0 of 2024-01-01 above release 1.0.0 of 2023-01-01.
  The other documents differ from it in a date or in the order of the versions.
\<close>

definition doc_roundtrip :: string where
  "doc_roundtrip = ''# Changelog\<newline>## [Unreleased]\<newline>## [2.0.0] - 2024-01-01\<newline>## [1.0.0] - 2023-01-01\<newline>''"

definition doc_month13 :: string where
  "doc_month13 = ''# Changelog\<newline>## [Unreleased]\<newline>## [2.0.0] - 2024-13-01\<newline>## [1.0.0] - 2023-01-01\<newline>''"

definition doc_ascending_feb30 :: string where
  "doc_ascending_feb30 = ''# Changelog\<newline>## [Unreleased]\<newline>## [1.0.0] - 2024-02-30\<newline>## [2.0.0] - 2023-01-01\<newline>''"

definition doc_ascending :: string where
  "doc_ascending = ''# Changelog\<newline>## [Unreleased]\<newline>## [1.0.0] - 2024-01-01\<newline>## [2.0.0] - 2023-01-01\<newline>''"

definition doc_later_below :: string where
  "doc_later_below = ''# Changelog\<newline>## [Unreleased]\<newline>## [2.0.0] - 2023-01-01\<newline>## [1.0.0] - 2024-01-01\<newline>''"

text \<open>
  A release with the sub-heading \<^verbatim>\<open>### Security\<close> right below an empty \<^verbatim>\<open>### Added\<close>, and a
  document of two releases with one section each.
\<close>

definition doc_swallowed :: string where
  "doc_swallowed = ''## [1.0.0] - 2024-01-01\<newline>### Added\<newline>### Security\<newline>- x\<newline>''"

definition doc_two_sections :: string where
  "doc_two_sections = ''## [2.0.0] - 2024-01-01\<newline>### Added\<newline>- a\<newline>## [1.0.0] - 2023-01-01\<newline>### Fixed\<newline>- b\<newline>''"

text \<open>The section \<open>dict\<close> with both keys, as \<open>parse_changelog\<close> builds it.\<close>

definition section_dict :: "string \<Rightarrow> string list \<Rightarrow> pydict" where
  "section_dict l cs = [''section'' \<mapsto> PStr l, ''changes'' \<mapsto> PList cs]"

text \<open>
  The Section record of a sub-heading and its body, as the specification words it: the
  label is the heading text without surrounding whitespace, the entries are the pieces
  of the body between the bullet markers.
\<close>

definition parsed_section :: "string \<times> string \<Rightarrow> pydict" where
  "parsed_section tc =
     section_dict (py_strip (fst tc)) (py_split ''\<newline>- '' (py_strip (snd tc)))"

section \<open>The matcher and the language of a pattern\<close>

text \<open>
  The equations of \<open>ms\<close> for the two repetitions unfold for ever as rewrite rules;
  they are used through the membership lemmas below and added back where a match is
  computed on a given text.
\<close>

declare ms.simps(6,7) [simp del]

lemma ms_Star_elem:
  "p \<in> set (ms (Star a) st) \<longleftrightarrow>
     p = st \<or> (\<exists>q \<in> set (ms a st). length (snd q) < length (snd st) \<and> p \<in> set (ms (Star a) q))"
  by (subst ms.simps(6)) auto

lemma ms_LazyStar_elem:
  "p \<in> set (ms (LazyStar a) st) \<longleftrightarrow>
     p = st \<or> (\<exists>q \<in> set (ms a st). length (snd q) < length (snd st) \<and> p \<in> set (ms (LazyStar a) q))"
  by (subst ms.simps(7)) auto

lemma ms_sound: "plain r \<Longrightarrow> p \<in> set (ms r st) \<Longrightarrow> \<exists>w \<in> lang r. snd st = w @ snd p"
proof (induction r st arbitrary: p rule: ms.induct)
  case (1 c st)
  then show ?case by (auto split: list.splits if_splits)
next
  case (2 P st)
  then show ?case by (auto split: list.splits if_splits)
next
  case (3 st)
  then show ?case by simp
next
  case (4 a b st)
  from 4(3,4) obtain q where q: "q \<in> set (ms a st)" and p: "p \<in> set (ms b q)" by auto
  from 4(1)[OF _ q] 4(3) obtain u where u: "u \<in> lang a" "snd st = u @ snd q" by auto
  from 4(2)[OF q _ p] 4(3) obtain v where v: "v \<in> lang b" "snd q = v @ snd p" by auto
  from u v show ?case by auto
next
  case (5 a b st)
  from 5(3,4) have "p \<in> set (ms a st) \<or> p \<in> set (ms b st)" by simp
  with 5(1)[of p] 5(2)[of p] 5(3) show ?case by auto
next
  case (6 a st)
  from 6(4) consider "p = st"
    | q where "q \<in> set (ms a st)" "length (snd q) < length (snd st)" "p \<in> set (ms (Star a) q)"
    unfolding ms_Star_elem[of p a st] by blast
  then show ?case
  proof cases
    case 1
    then show ?thesis by (auto intro: star.star_nil)
  next
    case 2
    from 6(1)[OF _ 2(1)] 6(3) obtain u where u: "u \<in> lang a" "snd st = u @ snd q" by auto
    from 6(2)[OF _ _ 2(3)] 2(1,2) 6(3) obtain v where v: "v \<in> star (lang a)" "snd q = v @ snd p" by auto
    from u v have "u @ v \<in> star (lang a)" by (auto intro: star.star_app)
    with u v show ?thesis by auto
  qed
next
  case (7 a st)
  from 7(4) consider "p = st"
    | q where "q \<in> set (ms a st)" "length (snd q) < length (snd st)" "p \<in> set (ms (LazyStar a) q)"
    unfolding ms_LazyStar_elem[of p a st] by blast
  then show ?case
  proof cases
    case 1
    then show ?thesis by (auto intro: star.star_nil)
  next
    case 2
    from 7(1)[OF _ 2(1)] 7(3) obtain u where u: "u \<in> lang a" "snd st = u @ snd q" by auto
    from 7(2)[OF _ _ 2(3)] 2(1,2) 7(3) obtain v where v: "v \<in> star (lang a)" "snd q = v @ snd p" by auto
    from u v have "u @ v \<in> star (lang a)" by (auto intro: star.star_app)
    with u v show ?thesis by auto
  qed
next
  case (8 n a st)
  from 8(2,3) obtain q where q: "q \<in> set (ms a st)" and p: "snd p = snd q" by auto
  from 8(1)[OF _ q] 8(2) p show ?case by auto
qed simp_all

lemma star_complete:
  assumes a: "\<And>w g t. w \<in> L \<Longrightarrow> \<exists>g'. (g', t) \<in> set (ms a (g, w @ t))"
  shows "w \<in> star L \<Longrightarrow> \<exists>g'. (g', t) \<in> set (ms (Star a) (g, w @ t))"
proof (induction w arbitrary: g rule: star.induct)
  case star_nil
  have "(g, t) \<in> set (ms (Star a) (g, t))" unfolding ms_Star_elem[of "(g, t)" a "(g, t)"] by simp
  then show ?case by auto
next
  case (star_app u v)
  show ?case
  proof (cases "u = []")
    case True
    with star_app.IH show ?thesis by simp
  next
    case False
    from a[OF star_app.hyps(1)] obtain g1 where g1: "(g1, v @ t) \<in> set (ms a (g, u @ v @ t))" by blast
    from star_app.IH obtain g2 where g2: "(g2, t) \<in> set (ms (Star a) (g1, v @ t))" by blast
    have "(g2, t) \<in> set (ms (Star a) (g, (u @ v) @ t))"
      unfolding ms_Star_elem[of "(g2, t)" a "(g, (u @ v) @ t)"]
      using False g1 g2 by (intro disjI2 bexI[of _ "(g1, v @ t)"]) auto
    then show ?thesis by blast
  qed
qed

lemma lazystar_complete:
  assumes a: "\<And>w g t. w \<in> L \<Longrightarrow> \<exists>g'. (g', t) \<in> set (ms a (g, w @ t))"
  shows "w \<in> star L \<Longrightarrow> \<exists>g'. (g', t) \<in> set (ms (LazyStar a) (g, w @ t))"
proof (induction w arbitrary: g rule: star.induct)
  case star_nil
  have "(g, t) \<in> set (ms (LazyStar a) (g, t))" unfolding ms_LazyStar_elem[of "(g, t)" a "(g, t)"] by simp
  then show ?case by auto
next
  case (star_app u v)
  show ?case
  proof (cases "u = []")
    case True
    with star_app.IH show ?thesis by simp
  next
    case False
    from a[OF star_app.hyps(1)] obtain g1 where g1: "(g1, v @ t) \<in> set (ms a (g, u @ v @ t))" by blast
    from star_app.IH obtain g2 where g2: "(g2, t) \<in> set (ms (LazyStar a) (g1, v @ t))" by blast
    have "(g2, t) \<in> set (ms (LazyStar a) (g, (u @ v) @ t))"
      unfolding ms_LazyStar_elem[of "(g2, t)" a "(g, (u @ v) @ t)"]
      using False g1 g2 by (intro disjI2 bexI[of _ "(g1, v @ t)"]) auto
    then show ?thesis by blast
  qed
qed

lemma ms_complete: "plain r \<Longrightarrow> w \<in> lang r \<Longrightarrow> \<exists>g'. (g', t) \<in> set (ms r (g, w @ t))"
proof (induction r arbitrary: w g t)
  case (Seq a b)
  from Seq.prems obtain u v where w: "w = u @ v" "u \<in> lang a" "v \<in> lang b" by auto
  from Seq.IH(1)[OF _ w(2)] Seq.prems(1) obtain g1 where g1: "(g1, v @ t) \<in> set (ms a (g, u @ v @ t))" by auto
  from Seq.IH(2)[OF _ w(3)] Seq.prems(1) obtain g2 where g2: "(g2, t) \<in> set (ms b (g1, v @ t))" by auto
  from w g1 g2 show ?case by (auto intro!: exI[of _ g2] bexI[of _ "(g1, v @ t)"])
next
  case (Alt a b)
  then show ?case by fastforce
next
  case (Star a)
  then show ?case using star_complete[of "lang a" a w t g] by simp
next
  case (LazyStar a)
  then show ?case using lazystar_complete[of "lang a" a w t g] by simp
next
  case (Grp n a)
  from Grp.IH[where w=w and g=g and t=t] Grp.prems obtain g1 where "(g1, t) \<in> set (ms a (g, w @ t))" by auto
  then show ?case by (auto simp: image_iff intro!: exI bexI[of _ "(g1, t)"])
qed auto

lemma re_match_iff: "plain r \<Longrightarrow> (re_match r s \<noteq> None) = (\<exists>w \<in> lang r. prefix w s)"
proof
  assume pl: "plain r" and "re_match r s \<noteq> None"
  then obtain p where "p \<in> set (ms r (Map.empty, s))"
    by (auto simp: re_match_def split: list.splits)
  from ms_sound[OF pl this] show "\<exists>w \<in> lang r. prefix w s" by (auto simp: prefix_def)
next
  assume pl: "plain r" and "\<exists>w \<in> lang r. prefix w s"
  then obtain w t where w: "w \<in> lang r" "s = w @ t" by (auto simp: prefix_def)
  from ms_complete[OF pl w(1), of t Map.empty] w(2) show "re_match r s \<noteq> None"
    by (auto simp: re_match_def split: list.splits)
qed

lemma ms_frame: "n \<notin> groups r \<Longrightarrow> p \<in> set (ms r st) \<Longrightarrow> fst p n = fst st n"
proof (induction r st arbitrary: p rule: ms.induct)
  case (1 c st)
  then show ?case by (auto split: list.splits if_splits)
next
  case (2 P st)
  then show ?case by (auto split: list.splits if_splits)
next
  case (4 a b st)
  from 4(3,4) obtain q where q: "q \<in> set (ms a st)" and p: "p \<in> set (ms b q)" by auto
  from 4(1)[OF _ q] 4(2)[OF q _ p] 4(3) show ?case by auto
next
  case (5 a b st)
  from 5(3,4) have "p \<in> set (ms a st) \<or> p \<in> set (ms b st)" by simp
  with 5(1)[of p] 5(2)[of p] 5(3) show ?case by auto
next
  case (6 a st)
  from 6(4) consider "p = st"
    | q where "q \<in> set (ms a st)" "length (snd q) < length (snd st)" "p \<in> set (ms (Star a) q)"
    unfolding ms_Star_elem[of p a st] by blast
  then show ?case
  proof cases
    case 2
    from 6(1)[OF _ 2(1)] 6(2)[OF _ _ 2(3)] 2(1,2) 6(3) show ?thesis by auto
  qed simp
next
  case (7 a st)
  from 7(4) consider "p = st"
    | q where "q \<in> set (ms a st)" "length (snd q) < length (snd st)" "p \<in> set (ms (LazyStar a) q)"
    unfolding ms_LazyStar_elem[of p a st] by blast
  then show ?case
  proof cases
    case 2
    from 7(1)[OF _ 2(1)] 7(2)[OF _ _ 2(3)] 2(1,2) 7(3) show ?thesis by auto
  qed simp
next
  case (8 n' a st)
  then show ?case by auto
next
  case (9 a st)
  show ?case
  proof (cases "ms a st")
    case Nil
    with 9(3) show ?thesis by simp
  next
    case (Cons q qs)
    then have "q \<in> set (ms a st)" by simp
    from 9(1)[OF _ this] 9(2) 9(3) Cons show ?thesis by simp
  qed
qed (auto split: if_splits)

lemma ms_Grp_capture:
  assumes "plain a" "p \<in> set (ms (Grp n a) st)"
  shows "\<exists>w \<in> lang a. fst p n = Some w"
proof -
  from assms(2) obtain q where q: "q \<in> set (ms a st)"
    and p: "p = ((fst q)(n \<mapsto> take (length (snd st) - length (snd q)) (snd st)), snd q)" by auto
  from ms_sound[OF assms(1) q] obtain w where "w \<in> lang a" "snd st = w @ snd q" by auto
  with p show ?thesis by auto
qed

lemma findall_elem: "g \<in> set (findall r s) \<Longrightarrow> \<exists>t p. re_match r t = Some p \<and> fst p = g"
proof (induction r s rule: findall.induct)
  case (1 r s)
  show ?case
  proof (cases "re_match r s")
    case None
    with 1 show ?thesis by (cases s) (auto simp: findall.simps[of r s])
  next
    case (Some p)
    show ?thesis
    proof (cases "g = fst p")
      case True
      with Some show ?thesis by blast
    next
      case False
      with Some 1 show ?thesis
        by (cases s) (auto simp: findall.simps[of r s] split: if_splits)
    qed
  qed
qed

section \<open>The languages of the program's patterns\<close>

lemma lang_Seq_Cls: "w \<in> lang (Seq (Cls P) r) \<longleftrightarrow> (\<exists>c v. w = c # v \<and> P c \<and> v \<in> lang r)"
proof
  assume "w \<in> lang (Seq (Cls P) r)"
  then show "\<exists>c v. w = c # v \<and> P c \<and> v \<in> lang r" by auto
next
  assume "\<exists>c v. w = c # v \<and> P c \<and> v \<in> lang r"
  then obtain c v where "w = [c] @ v" "P c" "v \<in> lang r" by auto
  then show "w \<in> lang (Seq (Cls P) r)" unfolding lang.simps by blast
qed

lemma lang_Seq_Lit: "w \<in> lang (Seq (Lit c) r) \<longleftrightarrow> (\<exists>v. w = c # v \<and> v \<in> lang r)"
proof
  assume "w \<in> lang (Seq (Lit c) r)"
  then show "\<exists>v. w = c # v \<and> v \<in> lang r" by auto
next
  assume "\<exists>v. w = c # v \<and> v \<in> lang r"
  then obtain v where "w = [c] @ v" "v \<in> lang r" by auto
  then show "w \<in> lang (Seq (Lit c) r)" unfolding lang.simps by blast
qed

lemma length_10:
  "length (w :: 'a list) = 10 \<longleftrightarrow> (\<exists>a b c d e f g h i j. w = [a, b, c, d, e, f, g, h, i, j])"
  by (auto simp: eval_nat_numeral length_Suc_conv)

lemma lang_date_rx: "w \<in> lang date_rx \<longleftrightarrow> date_shape w"
proof
  assume "w \<in> lang date_rx"
  then obtain a b c d e f g h where
    "w = [a, b, c, d, CHR ''-'', e, f, CHR ''-'', g, h]"
    "is_digit a" "is_digit b" "is_digit c" "is_digit d" "is_digit e" "is_digit f" "is_digit g" "is_digit h"
    unfolding date_rx_def seqs_def foldr.simps o_apply lang_Seq_Cls lang_Seq_Lit by auto
  then show "date_shape w" by (simp add: date_shape_def)
next
  assume d: "date_shape w"
  then have "length w = 10" by (simp add: date_shape_def)
  then obtain a b c d' e f g h i j where w: "w = [a, b, c, d', e, f, g, h, i, j]"
    unfolding length_10 by blast
  from d show "w \<in> lang date_rx"
    unfolding date_rx_def seqs_def foldr.simps o_apply lang_Seq_Cls lang_Seq_Lit w
    by (simp add: date_shape_def)
qed

lemma plain_date_rx: "plain date_rx"
  by (simp add: date_rx_def seqs_def)

lemma date_shape_length: "date_shape w \<Longrightarrow> length w = 10"
  by (simp add: date_shape_def)

lemma verify_date_iff: "verify_date d \<longleftrightarrow> d \<noteq> [] \<and> date_shape (take 10 d)"
proof -
  have "(\<exists>w \<in> lang date_rx. prefix w d) \<longleftrightarrow> date_shape (take 10 d)"
  proof
    assume "\<exists>w \<in> lang date_rx. prefix w d"
    then obtain w where w: "date_shape w" "prefix w d" by (auto simp: lang_date_rx)
    from w(2) obtain t where "d = w @ t" by (auto simp: prefix_def)
    with date_shape_length[OF w(1)] have "take 10 d = w" by simp
    with w(1) show "date_shape (take 10 d)" by simp
  next
    assume "date_shape (take 10 d)"
    moreover have "prefix (take 10 d) d" by (rule take_is_prefix)
    ultimately show "\<exists>w \<in> lang date_rx. prefix w d" by (auto simp: lang_date_rx)
  qed
  with re_match_iff[OF plain_date_rx, of d] show ?thesis
    by (auto simp: verify_date_def)
qed

lemma star_cls: "star {[c] | c. P c} = {s. list_all P s}"
proof (intro set_eqI iffI)
  fix s assume "s \<in> star {[c] | c. P c}"
  then show "s \<in> {s. list_all P s}" by (induction rule: star.induct) auto
next
  fix s assume "s \<in> {s. list_all P s}"
  then have "list_all P s" by simp
  then show "s \<in> star {[c] | c. P c}"
  proof (induction s)
    case Nil
    show ?case by (rule star.star_nil)
  next
    case (Cons c s)
    then have "[c] \<in> {[c] | c. P c}" "s \<in> star {[c] | c. P c}" by auto
    from star.star_app[OF this] show ?case by simp
  qed
qed

lemma char_0_iff: "c = CHR ''0'' \<longleftrightarrow> (of_char c :: nat) = 48"
proof -
  have "c = CHR ''0'' \<longleftrightarrow> (of_char c :: nat) = of_char CHR ''0''" by (simp only: of_char_eq_iff)
  then show ?thesis by simp
qed

lemma is_nonzero_iff: "is_nonzero c \<longleftrightarrow> is_digit c \<and> c \<noteq> CHR ''0''"
  by (auto simp: is_nonzero_def is_digit_def in_range_def char_0_iff)

lemma lang_num_rx: "w \<in> lang num_rx \<longleftrightarrow> numeric_id w"
proof
  assume "w \<in> lang num_rx"
  then consider "w = ''0''" | c v where "w = c # v" "is_nonzero c" "list_all is_digit v"
    by (auto simp: num_rx_def star_cls)
  then show "numeric_id w"
    by cases (auto simp: numeric_id_def is_nonzero_iff)
next
  assume n: "numeric_id w"
  show "w \<in> lang num_rx"
  proof (cases "w = ''0''")
    case True
    then show ?thesis by (simp add: num_rx_def)
  next
    case False
    with n obtain c v where w: "w = c # v" "list_all is_digit (c # v)" "c \<noteq> CHR ''0''"
      by (cases w) (auto simp: numeric_id_def)
    then have "is_nonzero c" "v \<in> star {[c] | c. is_digit c}"
      by (auto simp: is_nonzero_iff star_cls)
    then have "[c] @ v \<in> lang (Seq (Cls is_nonzero) (Star (Cls is_digit)))"
      unfolding lang.simps by blast
    with w(1) show ?thesis by (simp add: num_rx_def)
  qed
qed

lemma lang_core_rx:
  "w \<in> lang core_rx \<longleftrightarrow>
     (\<exists>a b c. numeric_id a \<and> numeric_id b \<and> numeric_id c \<and> w = a @ ''.'' @ b @ ''.'' @ c)"
  unfolding core_rx_def by (auto simp: lang_num_rx) blast

lemma plain_semver: "plain semver_regex"
  by (simp add: semver_regex_def core_rx_def num_rx_def pre_rx_def build_rx_def pre_id_rx_def
      Opt_def Plus_def)

lemma lang_tail_nil: "[] \<in> lang (Seq pre_rx build_rx)"
  by (simp add: pre_rx_def build_rx_def Opt_def)

lemma verify_semver_iff_prefix: "verify_semver v \<longleftrightarrow> (\<exists>p. prefix p v \<and> semver_grammar p)"
proof
  assume "verify_semver v"
  then have "re_match semver_regex v \<noteq> None" by (simp add: verify_semver_def split: if_splits)
  with re_match_iff[OF plain_semver, of v] obtain w where w: "w \<in> lang semver_regex" "prefix w v"
    by blast
  from w(1) obtain c r where c: "w = c @ r" "c \<in> lang core_rx"
    by (auto simp: semver_regex_def)
  from c(2) obtain a b d where abd: "numeric_id a" "numeric_id b" "numeric_id d"
      "c = a @ ''.'' @ b @ ''.'' @ d"
    unfolding lang_core_rx by blast
  have "semver_grammar c"
    unfolding semver_grammar_def
    by (rule exI[of _ a], rule exI[of _ b], rule exI[of _ d], rule exI[of _ "[]"],
        rule exI[of _ "[]"]) (simp add: abd)
  moreover from c(1) w(2) have "prefix c v" by (auto simp: prefix_def)
  ultimately show "\<exists>p. prefix p v \<and> semver_grammar p" by blast
next
  assume "\<exists>p. prefix p v \<and> semver_grammar p"
  then obtain p where p: "prefix p v" "semver_grammar p" by blast
  from p(2) obtain a b d pre build where abd: "numeric_id a" "numeric_id b" "numeric_id d"
      "p = a @ ''.'' @ b @ ''.'' @ d @ pre @ build"
    unfolding semver_grammar_def by blast
  let ?c = "a @ ''.'' @ b @ ''.'' @ d"
  have "?c \<in> lang core_rx" unfolding lang_core_rx using abd(1,2,3) by blast
  with lang_tail_nil have "?c @ [] \<in> lang semver_regex"
    unfolding semver_regex_def lang.simps by blast
  moreover have "prefix ?c v" using p(1) abd(4) by (auto simp: prefix_def)
  ultimately have "\<exists>w \<in> lang semver_regex. prefix w v" by auto
  with re_match_iff[OF plain_semver, of v] show "verify_semver v" by (simp add: verify_semver_def)
qed

text \<open>The version of every heading the ordering check collects starts with a digit.\<close>

lemma ms_Seq_elem: "p \<in> set (ms (Seq a b) st) \<longleftrightarrow> (\<exists>q \<in> set (ms a st). p \<in> set (ms b q))"
  by auto

lemma plain_mmp_rx: "plain mmp_rx"
  by (simp add: mmp_rx_def seqs_def Plus_def)

lemma lang_mmp_rx_hd: "w \<in> lang mmp_rx \<Longrightarrow> \<exists>c v. w = c # v \<and> is_digit c"
  by (auto simp: mmp_rx_def seqs_def Plus_def)

lemma order_rx_group1:
  assumes "p \<in> set (ms order_rx st)"
  shows "\<exists>w \<in> lang mmp_rx. fst p 1 = Some w"
proof -
  let ?tl = "Seq (lits ''] - '') (Seq (Grp 2 date_rx) Eps)"
  have o: "order_rx = Seq (lits ''## ['') (Seq (Grp 1 mmp_rx) ?tl)"
    by (simp add: order_rx_def seqs_def)
  from assms obtain q1 q2 where q2: "q2 \<in> set (ms (Grp 1 mmp_rx) q1)" and p: "p \<in> set (ms ?tl q2)"
    unfolding o ms_Seq_elem by blast
  from ms_Grp_capture[OF plain_mmp_rx q2] obtain w where w: "w \<in> lang mmp_rx" "fst q2 1 = Some w"
    by blast
  have "1 \<notin> groups ?tl" by (simp add: lits_def seqs_def date_rx_def)
  from ms_frame[OF this p] w show ?thesis by auto
qed

lemma order_versions_start_with_digit:
  assumes "m \<in> set (findall2 order_rx content)"
  shows "\<exists>c v. fst m = c # v \<and> is_digit c"
proof -
  from assms obtain g where g: "g \<in> set (findall order_rx content)" "m = (grp g 1, grp g 2)"
    by (auto simp: findall2_def)
  from findall_elem[OF g(1)] obtain t p where p: "re_match order_rx t = Some p" "fst p = g" by blast
  then have "p \<in> set (ms order_rx (Map.empty, t))"
    by (auto simp: re_match_def split: list.splits)
  from order_rx_group1[OF this] p(2) obtain w where "w \<in> lang mmp_rx" "g 1 = Some w" by auto
  with lang_mmp_rx_hd[of w] g(2) show ?thesis by (auto simp: grp_def)
qed

lemma order_versions_not_unreleased:
  "m \<in> set (findall2 order_rx content) \<Longrightarrow> fst m \<noteq> ''Unreleased''"
  using order_versions_start_with_digit[of m content]
  by (auto simp: is_digit_def in_range_def)

section \<open>The loops of the validator and of the extractor\<close>

lemma verify_sections_labelled:
  "list_all has_label ss \<Longrightarrow>
     fst (verify_sections ss allowed) = Inr (list_all (label_allowed allowed) ss)"
  by (induction ss) (auto simp: has_label_def label_allowed_def)

lemma verify_sections_first_offender:
  "list_all (label_allowed allowed) pre \<Longrightarrow> s ''section'' = Some l \<Longrightarrow>
   l \<notin> set (map PStr allowed) \<Longrightarrow>
     verify_sections (pre @ s # post) allowed = (Inr False, [SectionIssue l])"
  by (induction pre) (auto simp: label_allowed_def split: option.splits)

lemma message_distinct:
  "link_message v \<noteq> semver_message v" "link_message v \<noteq> date_message v"
  "link_message v \<noteq> section_message v allowed"
  by (simp_all add: link_message_def semver_message_def date_message_def section_message_def)

lemma verify_version_labelled:
  assumes "list_all has_label (sections v)"
  shows "fst (verify_version v allowed) =
           Inr ((if verify_semver (version v) then [] else [semver_message (version v)]) @
                (if verify_date (date v) then [] else [date_message (version v)]) @
                (if list_all (label_allowed allowed) (sections v) then []
                 else [section_message (version v) allowed]))"
proof -
  from verify_sections_labelled[OF assms, of allowed]
  obtain out where vs: "verify_sections (sections v) allowed =
      (Inr (list_all (label_allowed allowed) (sections v)), out)"
    by (cases "verify_sections (sections v) allowed") auto
  show ?thesis
    by (simp add: verify_version_def vs verify_links_def)
qed

text \<open>The inner loop, when it rejects no title, appends the Section record of every match.\<close>

lemma parse_sections_Inr:
  "parse_sections secs allowed parsed = Inr ps \<Longrightarrow> ps = parsed @ map parsed_section secs"
proof (induction secs arbitrary: parsed)
  case Nil
  then show ?case by simp
next
  case (Cons s secs)
  obtain t c where s: "s = (t, c)" by (cases s)
  show ?case
  proof (cases "py_strip t \<in> set allowed")
    case True
    with Cons.prems s have "parse_sections secs allowed (parsed @ [parsed_section (t, c)]) = Inr ps"
      by (simp add: parsed_section_def section_dict_def)
    from Cons.IH[OF this] s show ?thesis by simp
  next
    case False
    with Cons.prems s show ?thesis by simp
  qed
qed

lemma parse_versions_sections:
  assumes "\<forall>r \<in> set acc. parse_sections (findall2 section_rx content) allowed [] = Inr (sections r)"
  shows "\<forall>r \<in> set (fst (parse_versions vs content allowed acc)).
      parse_sections (findall2 section_rx content) allowed [] = Inr (sections r)"
  using assms
proof (induction vs arbitrary: acc)
  case Nil
  then show ?case by simp
next
  case (Cons vd vs)
  obtain v d where vd: "vd = (v, d)" by (cases vd)
  show ?case
  proof (cases "parse_sections (findall2 section_rx content) allowed []")
    case (Inl title)
    then show ?thesis by (simp add: vd)
  next
    case (Inr parsed)
    have "\<forall>r \<in> set (acc @ [\<lparr>version = v, date = d, sections = parsed\<rparr>]).
            parse_sections (findall2 section_rx content) allowed [] = Inr (sections r)"
      using Cons.prems Inr by simp
    from Cons.IH[OF this] Inr show ?thesis by (simp add: vd)
  qed
qed

text \<open>
  When every date collected is a calendar date, the ordering loop returns whether the
  releases are in order, and so does the scan of a document that passes the earlier
  checks and has two dated releases or more.
\<close>

lemma check_order_calendar_dates:
  "list_all (\<lambda>m. \<not> isl (strptime (snd m))) (prev # rest) \<Longrightarrow>
     fst (check_order prev rest) = Inr (in_order prev rest)"
proof (induction rest arbitrary: prev)
  case Nil
  then show ?case by simp
next
  case (Cons cur rest)
  from Cons.prems obtain dp dc where d: "strptime (snd prev) = Inr dp" "strptime (snd cur) = Inr dc"
    by (cases "strptime (snd prev)"; cases "strptime (snd cur)") auto
  from Cons.prems have "list_all (\<lambda>m. \<not> isl (strptime (snd m))) (cur # rest)" by simp
  from Cons.IH[OF this] d show ?case by (auto simp: not_le)
qed

lemma scanner_order_calendar_dates:
  assumes "re_search changelog_rx content \<noteq> None" and "re_search unreleased_rx content \<noteq> None"
    and "check_lines (py_split ''\<newline>'' content) = None"
    and "findall2 order_rx content = m0 # m1 # others"
    and "list_all (\<lambda>m. \<not> isl (strptime (snd m))) (m0 # m1 # others)"
  shows "fst (verify_changelog_format content) = Inr (in_order m0 (m1 # others))"
proof -
  have "verify_changelog_format content = check_order m0 (m1 # others)"
    by (simp add: verify_changelog_format_def assms(1,2,3,4) del: check_order.simps)
  with check_order_calendar_dates[OF assms(5)] show ?thesis by (simp only:)
qed

text \<open>With calendar dates only, the scan returns a boolean.\<close>

lemma check_order_returns:
  "list_all (\<lambda>m. \<not> isl (strptime (snd m))) (prev # rest) \<Longrightarrow> \<not> isl (fst (check_order prev rest))"
  using check_order_calendar_dates[of prev rest] by simp

lemma scanner_returns_on_calendar_dates:
  assumes "list_all (\<lambda>m. \<not> isl (strptime (snd m))) (findall2 order_rx content)"
  shows "\<not> isl (fst (verify_changelog_format content))"
proof (cases "findall2 order_rx content")
  case Nil
  then show ?thesis by (simp add: verify_changelog_format_def split: option.splits)
next
  case (Cons m0 ms)
  with assms have "\<not> isl (fst (check_order m0 ms))" by (intro check_order_returns) simp
  with Cons show ?thesis
    by (simp add: verify_changelog_format_def Let_def split: option.splits del: check_order.simps)
qed

text \<open>
  A label that \<open>findall\<close> does discover and that is not allowed empties the result of
  \<open>parse_changelog\<close>.
\<close>

lemma parse_sections_rejects:
  "(t, b) \<in> set secs \<Longrightarrow> py_strip t \<notin> set allowed \<Longrightarrow> isl (parse_sections secs allowed parsed)"
proof (induction secs arbitrary: parsed)
  case Nil
  then show ?case by simp
next
  case (Cons s secs)
  obtain t' b' where s: "s = (t', b')" by (cases s)
  show ?case
  proof (cases "py_strip t' \<in> set allowed")
    case True
    with Cons.prems s have "(t, b) \<in> set secs" by auto
    from Cons.IH[OF this Cons.prems(2)] True s show ?thesis by simp
  next
    case False
    with s show ?thesis by simp
  qed
qed

lemma parse_changelog_discovered_label:
  assumes "(t, b) \<in> set (findall2 section_rx content)" and "py_strip t \<notin> set allowed"
  shows "fst (parse_changelog content allowed) = []"
proof (cases "findall2 release_rx content")
  case Nil
  then show ?thesis by (simp add: parse_changelog_def)
next
  case (Cons vd vs)
  obtain v d where vd: "vd = (v, d)" by (cases vd)
  from parse_sections_rejects[OF assms, of "[]"]
  obtain title where "parse_sections (findall2 section_rx content) allowed [] = Inl title"
    by (cases "parse_sections (findall2 section_rx content) allowed []") auto
  with Cons vd show ?thesis by (simp add: parse_changelog_def)
qed

section \<open>Matches computed on given texts\<close>

text \<open>The definitions a computation unfolds: the character classes, the patterns, the matcher.\<close>

lemmas cls_defs = is_digit_def is_nonzero_def in_range_def is_alnum_hyphen_def is_alpha_hyphen_def
  is_alpha_def is_space_def not_newline_def any_char_def

lemmas rx_defs = semver_regex_def core_rx_def num_rx_def pre_rx_def build_rx_def pre_id_rx_def
  Opt_def Plus_def seqs_def lits_def date_rx_def mmp_rx_def release_rx_def section_rx_def
  changelog_rx_def unreleased_rx_def heading_rx_def order_rx_def strptime_rx_def

lemmas eval_defs = ms.simps(6,7) re_match_def grp_def findall2_def py_split_def py_strip_def py_int_def
  digit_val_def days_in_month_def is_leap_def strptime_def line_ok_def

lemma strptime_2024_01_01: "strptime ''2024-01-01'' = Inr (2024, 1, 1)"
  by (simp add: eval_defs rx_defs cls_defs)

lemma strptime_2023_01_01: "strptime ''2023-01-01'' = Inr (2023, 1, 1)"
  by (simp add: eval_defs rx_defs cls_defs)

lemma strptime_2024_13_01: "strptime ''2024-13-01'' = Inl ValueError"
  by (simp add: eval_defs rx_defs cls_defs)

lemma strptime_2024_02_30: "strptime ''2024-02-30'' = Inl ValueError"
  by (simp add: eval_defs rx_defs cls_defs)

lemma order_roundtrip:
  "findall2 order_rx doc_roundtrip = [(''2.0.0'', ''2024-01-01''), (''1.0.0'', ''2023-01-01'')]"
  by (simp add: doc_roundtrip_def findall.simps eval_defs rx_defs cls_defs)

lemma checks_roundtrip:
  "re_search changelog_rx doc_roundtrip \<noteq> None \<and> re_search unreleased_rx doc_roundtrip \<noteq> None
   \<and> check_lines (py_split ''\<newline>'' doc_roundtrip) = None"
  by (simp add: doc_roundtrip_def eval_defs rx_defs cls_defs)

lemma order_ascending:
  "findall2 order_rx doc_ascending = [(''1.0.0'', ''2024-01-01''), (''2.0.0'', ''2023-01-01'')]"
  by (simp add: doc_ascending_def findall.simps eval_defs rx_defs cls_defs)

lemma order_later_below:
  "findall2 order_rx doc_later_below = [(''2.0.0'', ''2023-01-01''), (''1.0.0'', ''2024-01-01'')]"
  by (simp add: doc_later_below_def findall.simps eval_defs rx_defs cls_defs)

lemma order_month13:
  "findall2 order_rx doc_month13 = [(''2.0.0'', ''2024-13-01''), (''1.0.0'', ''2023-01-01'')]"
  by (simp add: doc_month13_def findall.simps eval_defs rx_defs cls_defs)

lemma checks_month13:
  "re_search changelog_rx doc_month13 \<noteq> None \<and> re_search unreleased_rx doc_month13 \<noteq> None
   \<and> check_lines (py_split ''\<newline>'' doc_month13) = None"
  by (simp add: doc_month13_def eval_defs rx_defs cls_defs)

lemma order_ascending_feb30:
  "findall2 order_rx doc_ascending_feb30 = [(''1.0.0'', ''2024-02-30''), (''2.0.0'', ''2023-01-01'')]"
  by (simp add: doc_ascending_feb30_def findall.simps eval_defs rx_defs cls_defs)

lemma checks_ascending_feb30:
  "re_search changelog_rx doc_ascending_feb30 \<noteq> None
   \<and> re_search unreleased_rx doc_ascending_feb30 \<noteq> None
   \<and> check_lines (py_split ''\<newline>'' doc_ascending_feb30) = None"
  by (simp add: doc_ascending_feb30_def eval_defs rx_defs cls_defs)

lemma sections_swallowed:
  "findall2 section_rx doc_swallowed = [(''Added'', ''### Security\<newline>- x\<newline>'')]"
  by (simp add: doc_swallowed_def findall.simps eval_defs rx_defs cls_defs)

lemma releases_swallowed:
  "findall2 release_rx doc_swallowed = [(''1.0.0'', ''2024-01-01'')]"
  by (simp add: doc_swallowed_def findall.simps eval_defs rx_defs cls_defs)

lemma sections_two:
  "findall2 section_rx doc_two_sections =
     [(''Added'', ''- a\<newline>## [1.0.0] - 2023-01-01''), (''Fixed'', ''- b\<newline>'')]"
  by (simp add: doc_two_sections_def findall.simps eval_defs rx_defs cls_defs)

lemma releases_two:
  "findall2 release_rx doc_two_sections = [(''2.0.0'', ''2024-01-01''), (''1.0.0'', ''2023-01-01'')]"
  by (simp add: doc_two_sections_def findall.simps eval_defs rx_defs cls_defs)

lemma parse_two:
  "map (\<lambda>r. (version r, date r)) (fst (parse_changelog doc_two_sections allowed_sections_main)) =
     [(''2.0.0'', ''2024-01-01''), (''1.0.0'', ''2023-01-01'')]"
  by (simp add: parse_changelog_def releases_two sections_two allowed_sections_main_def
      py_strip_def py_split_def is_space_def)

lemma verify_semver_garbage: "verify_semver ''1.2.3garbage''"
  by (simp add: verify_semver_def eval_defs rx_defs cls_defs)

lemma verify_semver_1_2: "\<not> verify_semver ''1.2''"
  by (simp add: verify_semver_def eval_defs rx_defs cls_defs)

lemma verify_semver_1_0_0: "verify_semver ''1.0.0''"
  by (simp add: verify_semver_def eval_defs rx_defs cls_defs)

lemma verify_semver_unreleased: "\<not> verify_semver ''Unreleased''"
  by (simp add: verify_semver_def eval_defs rx_defs cls_defs)

lemma verify_date_2024_01_01: "verify_date ''2024-01-01''"
  by (simp add: verify_date_def eval_defs rx_defs cls_defs)

lemma verify_date_2024_13_45: "verify_date ''2024-13-45''"
  by (simp add: verify_date_def eval_defs rx_defs cls_defs)

lemma verify_date_short: "\<not> verify_date ''2024-1-1''"
  by (simp add: verify_date_def eval_defs rx_defs cls_defs)

lemma releases_unreleased_dated:
  "findall2 release_rx ''## [Unreleased] - 2024-01-01\<newline>'' = [(''Unreleased'', ''2024-01-01'')]"
  by (simp add: findall.simps eval_defs rx_defs cls_defs)

lemma sections_unreleased_dated:
  "findall2 section_rx ''## [Unreleased] - 2024-01-01\<newline>'' = []"
  by (simp add: findall.simps eval_defs rx_defs cls_defs)

lemma order_unreleased_dated:
  "findall2 order_rx ''## [Unreleased] - 2024-01-01\<newline>## [1.0.0] - 2023-01-01\<newline>'' =
     [(''1.0.0'', ''2023-01-01'')]"
  by (simp add: findall.simps eval_defs rx_defs cls_defs)

section \<open>The Structural Scanner: \<open>verify_changelog_format\<close>\<close>

text \<open>
  C1 (the ordering check returns \<open>False\<close> for every adjacent pair out of order and \<open>True\<close>
  when all pairs are in order). The code does not do this on every document its earlier
  checks accept: both dates of a pair are parsed with \<open>strptime\<close> before the versions
  are compared, and a date of the right digit shape that is no calendar date raises
  \<open>ValueError\<close>. \<open>doc_ascending_feb30\<close> passes the title, Unreleased and heading checks
  and lists 1.0.0 (dated 2024-02-30) above 2.0.0: the pair is out of order by version,
  yet the scan raises instead of returning \<open>False\<close>.
\<close>

theorem ascending_versions_raise:
  "re_search changelog_rx doc_ascending_feb30 \<noteq> None
   \<and> re_search unreleased_rx doc_ascending_feb30 \<noteq> None
   \<and> check_lines (py_split ''\<newline>'' doc_ascending_feb30) = None
   \<and> findall2 order_rx doc_ascending_feb30 = [(''1.0.0'', ''2024-02-30''), (''2.0.0'', ''2023-01-01'')]
   \<and> (''2.0.0'' :: string) \<ge> ''1.0.0''
   \<and> fst (verify_changelog_format doc_ascending_feb30) = Inl ValueError"
  using checks_ascending_feb30
  by (simp add: verify_changelog_format_def order_ascending_feb30 strptime_2024_02_30 strptime_2023_01_01)

text \<open>
  C2 (the scan returns a boolean on every text and never raises). It raises
  \<open>ValueError\<close> on \<open>doc_month13\<close>, whose first release is dated 2024-13-01.
\<close>

theorem month13_raises:
  "fst (verify_changelog_format doc_month13) = Inl ValueError"
  using checks_month13
  by (simp add: verify_changelog_format_def order_month13 strptime_2024_13_01 strptime_2023_01_01)

text \<open>
  C6 as the specification states it (the scan fails when the upper release \<open>A\<close> has the
  later date) does not hold: \<open>doc_roundtrip\<close> lists 2.0.0 of 2024-01-01 above 1.0.0 of
  2023-01-01, so \<open>A.date > B.date\<close>, and the scan returns \<open>True\<close>.
\<close>

theorem newer_release_first_accepted:
  "findall2 order_rx doc_roundtrip = [(''2.0.0'', ''2024-01-01''), (''1.0.0'', ''2023-01-01'')]
   \<and> strptime ''2024-01-01'' = Inr (2024, 1, 1) \<and> strptime ''2023-01-01'' = Inr (2023, 1, 1)
   \<and> date_less (2023, 1, 1) (2024, 1, 1)
   \<and> fst (verify_changelog_format doc_roundtrip) = Inr True"
  using checks_roundtrip
  by (simp add: verify_changelog_format_def order_roundtrip strptime_2024_01_01 strptime_2023_01_01)

text \<open>
  C6, amended: for a document with exactly two dated releases \<open>A\<close> above \<open>B\<close>, both
  dates calendar dates, the scan returns \<open>False\<close> whenever \<open>A.version < B.version\<close>
  lexicographically, and also whenever \<open>A.date < B.date\<close> (the lower release is dated
  later).
\<close>

theorem scanner_two_releases_order:
  assumes "findall2 order_rx content = [(vA, dA), (vB, dB)]"
    and "strptime dA = Inr a" and "strptime dB = Inr b"
    and "vA < vB \<or> date_less a b"
  shows "fst (verify_changelog_format content) = Inr False"
proof -
  have "vB \<ge> vA \<or> date_less a b" using assms(4) by auto
  then have "check_order (vA, dA) [(vB, dB)] =
      (Inr False, if vB \<ge> vA then [VersionsNotDescending vB vA] else [DatesNotChronological b a])"
    by (auto simp: assms(2,3))
  then show ?thesis
    by (simp add: verify_changelog_format_def assms(1) split: option.splits)
qed

text \<open>
  The theorem at \<open>doc_ascending\<close>, which lists 1.0.0 above 2.0.0, and at
  \<open>doc_later_below\<close>, whose lower release is dated later.
\<close>

theorem scanner_two_releases_order_witness:
  "findall2 order_rx doc_ascending = [(''1.0.0'', ''2024-01-01''), (''2.0.0'', ''2023-01-01'')]
   \<and> (''1.0.0'' :: string) < ''2.0.0''
   \<and> fst (verify_changelog_format doc_ascending) = Inr False
   \<and> findall2 order_rx doc_later_below = [(''2.0.0'', ''2023-01-01''), (''1.0.0'', ''2024-01-01'')]
   \<and> date_less (2023, 1, 1) (2024, 1, 1)
   \<and> fst (verify_changelog_format doc_later_below) = Inr False"
proof -
  have v: "(''1.0.0'' :: string) < ''2.0.0'' \<or> date_less (2024, 1, 1) (2023, 1, 1)" by simp
  have d: "(''2.0.0'' :: string) < ''1.0.0'' \<or> date_less (2023, 1, 1) (2024, 1, 1)" by simp
  from scanner_two_releases_order[OF order_ascending strptime_2024_01_01 strptime_2023_01_01 v]
    scanner_two_releases_order[OF order_later_below strptime_2023_01_01 strptime_2024_01_01 d]
  show ?thesis by (simp add: order_ascending order_later_below)
qed

section \<open>The Release Extractor: \<open>parse_changelog\<close>\<close>

text \<open>
  C3: any two releases \<open>parse_changelog\<close> returns carry equal sections lists, and that
  list holds the Section record of every sub-heading \<open>findall\<close> discovers in the whole
  document, in document order, whatever release the sub-heading stands under.
\<close>

theorem parse_changelog_same_sections:
  "\<forall>r1 \<in> set (fst (parse_changelog content allowed)).
   \<forall>r2 \<in> set (fst (parse_changelog content allowed)).
      sections r1 = sections r2 \<and>
      sections r1 = map parsed_section (findall2 section_rx content)"
proof (intro ballI)
  fix r1 r2
  assume r1: "r1 \<in> set (fst (parse_changelog content allowed))"
    and r2: "r2 \<in> set (fst (parse_changelog content allowed))"
  have all: "\<forall>r \<in> set (fst (parse_changelog content allowed)).
          parse_sections (findall2 section_rx content) allowed [] = Inr (sections r)"
    unfolding parse_changelog_def by (rule parse_versions_sections) simp
  from all r1 have "parse_sections (findall2 section_rx content) allowed [] = Inr (sections r1)"
    by blast
  from parse_sections_Inr[OF this]
  have s1: "sections r1 = map parsed_section (findall2 section_rx content)" by simp
  from all r2 have "parse_sections (findall2 section_rx content) allowed [] = Inr (sections r2)"
    by blast
  from parse_sections_Inr[OF this]
  have s2: "sections r2 = map parsed_section (findall2 section_rx content)" by simp
  from s1 s2 show "sections r1 = sections r2 \<and>
      sections r1 = map parsed_section (findall2 section_rx content)" by simp
qed

text \<open>
  The theorem at \<open>doc_two_sections\<close>: two releases are returned, and each carries both
  \<open>Added\<close> (of release 2.0.0, its body running over the heading of 1.0.0) and \<open>Fixed\<close>
  (of release 1.0.0).
\<close>

theorem parse_changelog_same_sections_witness:
  "map (\<lambda>r. (version r, date r)) (fst (parse_changelog doc_two_sections allowed_sections_main)) =
     [(''2.0.0'', ''2024-01-01''), (''1.0.0'', ''2023-01-01'')]
   \<and> sections (fst (parse_changelog doc_two_sections allowed_sections_main) ! 0) =
       [section_dict ''Added'' [''- a\<newline>## [1.0.0] - 2023-01-01''], section_dict ''Fixed'' [''- b'']]
   \<and> sections (fst (parse_changelog doc_two_sections allowed_sections_main) ! 1) =
       [section_dict ''Added'' [''- a\<newline>## [1.0.0] - 2023-01-01''], section_dict ''Fixed'' [''- b'']]"
proof -
  let ?rs = "fst (parse_changelog doc_two_sections allowed_sections_main)"
  have len: "length ?rs = 2" using arg_cong[OF parse_two, of length] by simp
  then have m: "?rs ! 0 \<in> set ?rs" "?rs ! 1 \<in> set ?rs" by simp_all
  have p: "map parsed_section (findall2 section_rx doc_two_sections) =
       [section_dict ''Added'' [''- a\<newline>## [1.0.0] - 2023-01-01''], section_dict ''Fixed'' [''- b'']]"
    by (simp add: sections_two parsed_section_def py_strip_def py_split_def is_space_def)
  from parse_changelog_same_sections[of doc_two_sections allowed_sections_main] m
  have "sections (?rs ! 0) = map parsed_section (findall2 section_rx doc_two_sections)"
       "sections (?rs ! 1) = map parsed_section (findall2 section_rx doc_two_sections)"
    by blast+
  with parse_two p show ?thesis by simp
qed

text \<open>
  C4 (a sub-heading line whose label is not allowed makes \<open>parse_changelog\<close> return the
  empty list). The code misses the sub-heading that directly follows another one: the
  body of a section starts after the newline of its heading and ends before the next
  \<^verbatim>\<open>\n###\<close>, so the line \<^verbatim>\<open>### Security\<close> right below \<^verbatim>\<open>### Added\<close> is read as the body of
  \<open>Added\<close>. On \<open>doc_swallowed\<close> the release is returned, with \<^verbatim>\<open>### Security\<close> as its
  first change entry.
\<close>

theorem swallowed_heading_not_rejected:
  "contains doc_swallowed ''\<newline>### Security\<newline>''
   \<and> ''Security'' \<notin> set allowed_sections_main
   \<and> fst (parse_changelog doc_swallowed allowed_sections_main) =
       [\<lparr>version = ''1.0.0'', date = ''2024-01-01'',
         sections = [[''section'' \<mapsto> PStr ''Added'',
                      ''changes'' \<mapsto> PList [''### Security'', ''x'']]]\<rparr>]"
proof -
  have "contains doc_swallowed ''\<newline>### Security\<newline>''"
    by (simp add: doc_swallowed_def)
  moreover have "fst (parse_changelog doc_swallowed allowed_sections_main) =
       [\<lparr>version = ''1.0.0'', date = ''2024-01-01'',
         sections = [[''section'' \<mapsto> PStr ''Added'',
                      ''changes'' \<mapsto> PList [''### Security'', ''x'']]]\<rparr>]"
    by (simp add: parse_changelog_def releases_swallowed sections_swallowed
        allowed_sections_main_def py_strip_def py_split_def is_space_def)
  ultimately show ?thesis by (simp add: allowed_sections_main_def)
qed

section \<open>The Semantic Validator: \<open>KACLValidator\<close>\<close>

text \<open>
  C5: \<open>verify_semver\<close> holds of exactly the strings that begin with a prefix in the
  semantic-version grammar; \<^verbatim>\<open>1.2.3garbage\<close> is accepted and \<^verbatim>\<open>1.2\<close> rejected, and the
  message \<open>verify_version\<close> returns for the version \<^verbatim>\<open>1.2\<close> names that token.
\<close>

theorem verify_semver_prefix_grammar:
  "(verify_semver v \<longleftrightarrow> (\<exists>p. prefix p v \<and> semver_grammar p))
   \<and> verify_semver ''1.2.3garbage'' \<and> \<not> verify_semver ''1.2''
   \<and> (list_all has_label ss \<longrightarrow>
        (\<exists>rest. fst (verify_version \<lparr>version = ''1.2'', date = d, sections = ss\<rparr> allowed) =
           Inr (''Version 1.2 is not a valid semantic version.'' # rest)))"
proof -
  have "list_all has_label ss \<Longrightarrow>
        \<exists>rest. fst (verify_version \<lparr>version = ''1.2'', date = d, sections = ss\<rparr> allowed) =
           Inr (''Version 1.2 is not a valid semantic version.'' # rest)"
    using verify_version_labelled[of "\<lparr>version = ''1.2'', date = d, sections = ss\<rparr>" allowed]
    by (simp add: verify_semver_1_2 semver_message_def)
  with verify_semver_iff_prefix[of v] verify_semver_garbage verify_semver_1_2 show ?thesis by blast
qed

text \<open>The theorem at \<^verbatim>\<open>1.2.3garbage\<close> and at a release \<^verbatim>\<open>1.2\<close> without sections.\<close>

theorem verify_semver_prefix_grammar_witness:
  "verify_semver ''1.2.3garbage'' \<and> (\<exists>p. prefix p ''1.2.3garbage'' \<and> semver_grammar p)
   \<and> list_all has_label []
   \<and> (\<exists>rest. fst (verify_version \<lparr>version = ''1.2'', date = ''2024-01-01'', sections = []\<rparr>
                     allowed_sections_main) =
          Inr (''Version 1.2 is not a valid semantic version.'' # rest))"
  using verify_semver_prefix_grammar[of "''1.2.3garbage''" "[]" "''2024-01-01''" allowed_sections_main]
  by auto

text \<open>
  C7 as stated (a release whose version is \<^verbatim>\<open>Unreleased\<close> gets no semantic-version
  violation from \<open>verify_version\<close>) does not hold: the heading
  \<^verbatim>\<open>## [Unreleased] - 2024-01-01\<close> is extracted as a release of version \<^verbatim>\<open>Unreleased\<close>,
  and \<open>verify_version\<close> reports that this version is not a valid semantic version.
\<close>

theorem unreleased_not_exempt_from_semver:
  "fst (parse_changelog ''## [Unreleased] - 2024-01-01\<newline>'' allowed_sections_main) =
     [\<lparr>version = ''Unreleased'', date = ''2024-01-01'', sections = []\<rparr>]
   \<and> fst (verify_version \<lparr>version = ''Unreleased'', date = ''2024-01-01'', sections = []\<rparr>
            allowed_sections_main) =
     Inr [''Version Unreleased is not a valid semantic version.'']"
proof -
  have "list_all has_label (sections \<lparr>version = ''Unreleased'', date = ''2024-01-01'', sections = []\<rparr>)"
    by simp
  from verify_version_labelled[OF this, of allowed_sections_main] show ?thesis
    by (simp add: parse_changelog_def releases_unreleased_dated sections_unreleased_dated
        verify_semver_unreleased verify_date_2024_01_01 semver_message_def)
qed

text \<open>
  C7, amended: the heading-shape check of the scanner skips every line that contains
  \<^verbatim>\<open>[Unreleased]\<close>, and no release the ordering check collects has the version
  \<^verbatim>\<open>Unreleased\<close>; \<open>verify_version\<close> has no exemption, and for a release of version
  \<^verbatim>\<open>Unreleased\<close> its first message is the semantic-version violation.
\<close>

theorem unreleased_exemption:
  "(contains line ''[Unreleased]'' \<longrightarrow> line_ok line)
   \<and> (\<forall>m \<in> set (findall2 order_rx content). fst m \<noteq> ''Unreleased'')
   \<and> (list_all has_label ss \<longrightarrow>
        (\<exists>rest. fst (verify_version \<lparr>version = ''Unreleased'', date = d, sections = ss\<rparr> allowed) =
           Inr (''Version Unreleased is not a valid semantic version.'' # rest)))"
proof -
  have "list_all has_label ss \<Longrightarrow>
        \<exists>rest. fst (verify_version \<lparr>version = ''Unreleased'', date = d, sections = ss\<rparr> allowed) =
           Inr (''Version Unreleased is not a valid semantic version.'' # rest)"
    using verify_version_labelled[of "\<lparr>version = ''Unreleased'', date = d, sections = ss\<rparr>" allowed]
    by (simp add: verify_semver_unreleased semver_message_def)
  moreover have "contains line ''[Unreleased]'' \<Longrightarrow> line_ok line" by (simp add: line_ok_def)
  ultimately show ?thesis using order_versions_not_unreleased[of _ content] by blast
qed

text \<open>The theorem at a dated Unreleased heading above release 1.0.0.\<close>

theorem unreleased_exemption_witness:
  "contains ''## [Unreleased] - 2024-01-01'' ''[Unreleased]''
   \<and> line_ok ''## [Unreleased] - 2024-01-01''
   \<and> (''1.0.0'', ''2023-01-01'') \<in> set (findall2 order_rx
         ''## [Unreleased] - 2024-01-01\<newline>## [1.0.0] - 2023-01-01\<newline>'')
   \<and> fst (''1.0.0'', ''2023-01-01'') \<noteq> ''Unreleased''
   \<and> list_all has_label []
   \<and> (\<exists>rest. fst (verify_version \<lparr>version = ''Unreleased'', date = ''2024-01-01'', sections = []\<rparr>
                     allowed_sections_main) =
          Inr (''Version Unreleased is not a valid semantic version.'' # rest))"
  using unreleased_exemption[of "''## [Unreleased] - 2024-01-01''"
      "''## [Unreleased] - 2024-01-01\<newline>## [1.0.0] - 2023-01-01\<newline>''" "[]" "''2024-01-01''"
      allowed_sections_main]
  by (simp add: order_unreleased_dated)

text \<open>
  C8 as stated (the returned message names the first offending label) does not hold:
  for a release whose only section is \<^verbatim>\<open>Security\<close> the one message returned lists the
  allowed labels and does not contain \<^verbatim>\<open>Security\<close>.
\<close>

theorem section_message_omits_label:
  "fst (verify_version \<lparr>version = ''1.0.0'', date = ''2024-01-01'',
                         sections = [section_dict ''Security'' [''x'']]\<rparr> allowed_sections_main) =
     Inr [''Version 1.0.0 contains an invalid section. Valid sections are: Added, Changed, Fixed, Deprecated, Removed'']
   \<and> \<not> contains ''Version 1.0.0 contains an invalid section. Valid sections are: Added, Changed, Fixed, Deprecated, Removed'' ''Security''"
proof -
  have "list_all has_label (sections \<lparr>version = ''1.0.0'', date = ''2024-01-01'',
                           sections = [section_dict ''Security'' [''x'']]\<rparr>)"
    by (simp add: has_label_def section_dict_def)
  from verify_version_labelled[OF this, of allowed_sections_main] show ?thesis
    by (simp add: verify_semver_1_0_0 verify_date_2024_01_01
        section_message_def label_allowed_def section_dict_def allowed_sections_main_def)
qed

text \<open>
  C8, amended: for a release with a section whose label is not allowed, the sections
  before it being allowed, \<open>verify_version\<close> returns as last message the section
  violation, which names the version and the allowed labels; the offending label, and
  only the first one, is what \<open>verify_sections\<close> prints.
\<close>

theorem verify_version_invalid_section:
  assumes "sections v = pre @ s # post"
    and "list_all (label_allowed allowed) pre"
    and "s ''section'' = Some l"
    and "l \<notin> set (map PStr allowed)"
  shows "snd (verify_version v allowed) = [SectionIssue l] \<and>
         fst (verify_version v allowed) =
           Inr ((if verify_semver (version v) then [] else [semver_message (version v)]) @
                (if verify_date (date v) then [] else [date_message (version v)]) @
                [section_message (version v) allowed])"
proof -
  have "verify_sections (sections v) allowed = (Inr False, [SectionIssue l])"
    unfolding assms(1) using assms(2,3,4) by (rule verify_sections_first_offender)
  then show ?thesis
    by (simp add: verify_version_def verify_links_def)
qed

text \<open>The theorem at a release with the sections \<open>Added\<close>, \<open>Security\<close> and \<open>Hacks\<close>.\<close>

theorem verify_version_invalid_section_witness:
  "snd (verify_version \<lparr>version = ''1.0.0'', date = ''2024-01-01'',
          sections = [section_dict ''Added'' [''a''], section_dict ''Security'' [''x''],
                      section_dict ''Hacks'' [''y'']]\<rparr> allowed_sections_main) =
     [SectionIssue (PStr ''Security'')]
   \<and> fst (verify_version \<lparr>version = ''1.0.0'', date = ''2024-01-01'',
          sections = [section_dict ''Added'' [''a''], section_dict ''Security'' [''x''],
                      section_dict ''Hacks'' [''y'']]\<rparr> allowed_sections_main) =
     Inr [''Version 1.0.0 contains an invalid section. Valid sections are: Added, Changed, Fixed, Deprecated, Removed'']"
proof -
  let ?v = "\<lparr>version = ''1.0.0'', date = ''2024-01-01'',
          sections = [section_dict ''Added'' [''a''], section_dict ''Security'' [''x''],
                      section_dict ''Hacks'' [''y'']]\<rparr>"
  have 1: "sections ?v = [section_dict ''Added'' [''a'']] @ section_dict ''Security'' [''x'']
              # [section_dict ''Hacks'' [''y'']]" by simp
  have 2: "list_all (label_allowed allowed_sections_main) [section_dict ''Added'' [''a'']]"
    by (simp add: label_allowed_def section_dict_def allowed_sections_main_def)
  have 3: "section_dict ''Security'' [''x''] ''section'' = Some (PStr ''Security'')"
    by (simp add: section_dict_def)
  have 4: "PStr ''Security'' \<notin> set (map PStr allowed_sections_main)"
    by (simp add: allowed_sections_main_def)
  from verify_version_invalid_section[OF 1 2 3 4] show ?thesis
    by (simp add: verify_semver_1_0_0 verify_date_2024_01_01 section_message_def
        allowed_sections_main_def)
qed

text \<open>
  C9: \<open>verify_date\<close> holds exactly of the non-empty strings whose first ten characters
  have the digit shape; \<^verbatim>\<open>2024-13-45\<close> is accepted, and what follows the first ten
  characters is ignored.
\<close>

theorem verify_date_shape:
  "(verify_date d \<longleftrightarrow> d \<noteq> [] \<and> date_shape (take 10 d))
   \<and> verify_date ''2024-13-45''
   \<and> (10 \<le> length d \<longrightarrow> verify_date (take 10 d @ e) = verify_date d)"
proof -
  have "10 \<le> length d \<Longrightarrow> verify_date (take 10 d @ e) = verify_date d"
    unfolding verify_date_iff by auto
  with verify_date_iff[of d] verify_date_2024_13_45 show ?thesis by blast
qed

text \<open>The theorem at \<^verbatim>\<open>2024-13-45xyz\<close>.\<close>

theorem verify_date_shape_witness:
  "verify_date ''2024-13-45xyz'' \<and> date_shape (take 10 ''2024-13-45xyz'')
   \<and> 10 \<le> length ''2024-13-45xyz''
   \<and> verify_date (take 10 ''2024-13-45xyz'' @ ''abc'') = verify_date ''2024-13-45xyz''"
proof -
  have "date_shape (take 10 ''2024-13-45xyz'')" by (simp add: date_shape_def cls_defs)
  with verify_date_shape[of "''2024-13-45xyz''" "''abc''"] show ?thesis by simp
qed

text \<open>
  C10: when every section of the release has its \<^verbatim>\<open>'section'\<close> key, \<open>verify_version\<close> does
  not raise and returns one message for each failed check, in the order version, date,
  sections; the link check adds none.
\<close>

theorem verify_version_all_checks:
  assumes "list_all has_label (sections v)"
  shows "fst (verify_version v allowed) =
           Inr ((if verify_semver (version v) then [] else [semver_message (version v)]) @
                (if verify_date (date v) then [] else [date_message (version v)]) @
                (if list_all (label_allowed allowed) (sections v) then []
                 else [section_message (version v) allowed]))
         \<and> (\<forall>msgs. fst (verify_version v allowed) = Inr msgs \<longrightarrow> link_message (version v) \<notin> set msgs)"
  using verify_version_labelled[OF assms, of allowed] by (simp add: message_distinct)

text \<open>The theorem at a release that fails the version, the date and the section check.\<close>

theorem verify_version_all_checks_witness:
  "list_all has_label [section_dict ''Security'' [''x'']]
   \<and> fst (verify_version \<lparr>version = ''1.2'', date = ''2024-1-1'',
                           sections = [section_dict ''Security'' [''x'']]\<rparr> allowed_sections_main) =
       Inr [''Version 1.2 is not a valid semantic version.'',
            ''Version 1.2 has an invalid release date format.'',
            ''Version 1.2 contains an invalid section. Valid sections are: Added, Changed, Fixed, Deprecated, Removed'']"
proof -
  have l: "list_all has_label (sections \<lparr>version = ''1.2'', date = ''2024-1-1'',
                           sections = [section_dict ''Security'' [''x'']]\<rparr>)"
    by (simp add: has_label_def section_dict_def)
  from verify_version_all_checks[OF l, of allowed_sections_main] l show ?thesis
    by (simp add: verify_semver_1_2 verify_date_short semver_message_def date_message_def
        section_message_def label_allowed_def section_dict_def allowed_sections_main_def)
qed

end
